theory Spec2Isabelle
  imports Complex_Main "HOL-Library.Sublist"
begin

section \<open>Embedding service: cosine similarity\<close>

text \<open>
  The embedding service works on JavaScript arrays of numbers. A vector is a list of
  numbers; the numbers are taken as reals, so rounding, overflow and NaN of IEEE doubles
  are outside this development. A thrown \<open>Error\<close> is a value carrying its message.
\<close>

type_synonym vec = "real list"

datatype js_error = Error string

fun message_of :: "js_error \<Rightarrow> string" where
  "message_of (Error m) = m"

text \<open>
  The loop of \<open>cosineSimilarity\<close>: one pass over the indices of \<open>vecA\<close>, accumulating
  \<open>dotProduct\<close>, \<open>normA\<close> and \<open>normB\<close>. It is only entered once the two lengths are known
  to be equal.
\<close>

fun cosine_loop :: "vec \<Rightarrow> vec \<Rightarrow> real \<times> real \<times> real \<Rightarrow> real \<times> real \<times> real" where
  "cosine_loop (a # as) (b # bs) (dotProduct, normA, normB) =
     cosine_loop as bs (dotProduct + a * b, normA + a * a, normB + b * b)"
| "cosine_loop _ _ acc = acc"

text \<open>
  The three ways \<open>cosineSimilarity\<close> ends: the \<open>throw\<close> on a length mismatch, the
  \<open>return 0\<close> of the zero-norm guard, and the final \<open>return dotProduct / (normA * normB)\<close>,
  recorded with the numerator and the denominator of the division it performs.
\<close>

datatype cosine_exit = Threw js_error | ZeroGuard | Divided real real

definition cosine_exit :: "vec \<Rightarrow> vec \<Rightarrow> cosine_exit" where
  "cosine_exit vecA vecB =
     (if length vecA \<noteq> length vecB then Threw (Error ''Vectors must have the same length'')
      else
        (case cosine_loop vecA vecB (0, 0, 0) of
           (dotProduct, sqA, sqB) \<Rightarrow>
             (let normA = sqrt sqA; normB = sqrt sqB
              in if normA = 0 \<or> normB = 0 then ZeroGuard
                 else Divided dotProduct (normA * normB))))"

definition cosineSimilarity :: "vec \<Rightarrow> vec \<Rightarrow> js_error + real" where
  "cosineSimilarity vecA vecB =
     (case cosine_exit vecA vecB of
        Threw e \<Rightarrow> Inl e
      | ZeroGuard \<Rightarrow> Inr 0
      | Divided n d \<Rightarrow> Inr (n / d))"

text \<open>The Euclidean norm the loop computes for one vector.\<close>

definition vec_norm :: "vec \<Rightarrow> real" where
  "vec_norm v = sqrt (\<Sum>x\<leftarrow>v. x * x)"

section \<open>Embedding service: ranking documents\<close>

text \<open>
  A document handed to \<open>findSimilar\<close> is a chunk produced by \<open>splitText\<close>: its text, its
  index, the metadata \<open>{startChar, length}\<close>, and the \<open>embedding\<close> that \<open>findSimilar\<close>
  caches on the object (absent until then). Strings are lists of characters, one
  character for one code unit of the JavaScript string.
\<close>

record chunk_metadata =
  startChar :: int
  meta_length :: nat

record chunk =
  chunk_text :: string
  chunk_index :: nat
  metadata :: chunk_metadata
  embedding :: "vec option"

text \<open>One entry of \<open>similarities\<close>: \<open>{index, score, document}\<close>.\<close>

record similarity =
  index :: nat
  score :: real
  document :: chunk

text \<open>
  \<open>embedText\<close> stands for \<open>embed\<close>, which calls the external model; it is a parameter
  here, a function from the text to the vector or to the error it throws.
\<close>

type_synonym embedder = "string \<Rightarrow> js_error + vec"

text \<open>
  The loop over \<open>documents\<close>: a cached embedding is reused, otherwise \<open>embed(doc.text)\<close>
  is called and its result stored on the document. When \<open>embed\<close> throws, the loop
  stops; the documents seen before keep their new cache. The result is \<open>documentEmbeddings\<close> (or
  the error) together with the documents as the loop leaves them.
\<close>

fun embed_documents :: "embedder \<Rightarrow> chunk list \<Rightarrow> (js_error + vec list) \<times> chunk list" where
  "embed_documents embedText [] = (Inr [], [])"
| "embed_documents embedText (doc # docs) =
     (case embedding doc of
        Some e \<Rightarrow>
          (case embed_documents embedText docs of
             (Inl err, docs') \<Rightarrow> (Inl err, doc # docs')
           | (Inr es, docs') \<Rightarrow> (Inr (e # es), doc # docs'))
      | None \<Rightarrow>
          (case embedText (chunk_text doc) of
             Inl err \<Rightarrow> (Inl err, doc # docs)
           | Inr e \<Rightarrow>
               (case embed_documents embedText docs of
                  (Inl err, docs') \<Rightarrow> (Inl err, doc\<lparr>embedding := Some e\<rparr> # docs')
                | (Inr es, docs') \<Rightarrow> (Inr (e # es), doc\<lparr>embedding := Some e\<rparr> # docs'))))"

text \<open>
  \<open>documentEmbeddings.map((docEmbedding, index) => ...)\<close>, from position \<open>i\<close> on; a throw
  of \<open>cosineSimilarity\<close> ends it.
\<close>

fun similarities_from :: "vec \<Rightarrow> vec list \<Rightarrow> chunk list \<Rightarrow> nat \<Rightarrow> js_error + similarity list" where
  "similarities_from queryEmbedding [] documents i = Inr []"
| "similarities_from queryEmbedding (docEmbedding # rest) documents i =
     (case cosineSimilarity queryEmbedding docEmbedding of
        Inl err \<Rightarrow> Inl err
      | Inr s \<Rightarrow>
          (case similarities_from queryEmbedding rest documents (Suc i) of
             Inl err \<Rightarrow> Inl err
           | Inr sims \<Rightarrow> Inr (\<lparr>index = i, score = s, document = documents ! i\<rparr> # sims)))"

text \<open>
  \<open>Array.prototype.sort\<close> with a comparator is a stable sort: \<open>a\<close> stays before \<open>b\<close>
  unless the comparator is positive. Stable insertion computes it.
\<close>

fun insert_by :: "('a \<Rightarrow> 'a \<Rightarrow> real) \<Rightarrow> 'a \<Rightarrow> 'a list \<Rightarrow> 'a list" where
  "insert_by cmp x [] = [x]"
| "insert_by cmp x (y # ys) = (if cmp x y \<le> 0 then x # y # ys else y # insert_by cmp x ys)"

definition js_sort :: "('a \<Rightarrow> 'a \<Rightarrow> real) \<Rightarrow> 'a list \<Rightarrow> 'a list" where
  "js_sort cmp xs = foldr (insert_by cmp) xs []"

text \<open>The comparator \<open>(a, b) => b.score - a.score\<close>.\<close>

definition by_score_desc :: "similarity \<Rightarrow> similarity \<Rightarrow> real" where
  "by_score_desc a b = score b - score a"

text \<open>
  \<open>xs.slice(0, k)\<close> for an integer \<open>k\<close>: a negative end counts from the end of the array,
  and the end is cut to the array's bounds.
\<close>

definition slice0 :: "'a list \<Rightarrow> int \<Rightarrow> 'a list" where
  "slice0 xs k =
     (let len = int (length xs);
          final = (if k < 0 then max (len + k) 0 else min k len)
      in take (nat final) xs)"

text \<open>
  \<open>findSimilar\<close>. Every error inside is caught and replaced by
  \<open>Error('Failed to find similar documents')\<close>. The second component is the \<open>documents\<close>
  array after the call, with the embeddings cached by it.
\<close>

definition findSimilar ::
  "embedder \<Rightarrow> string \<Rightarrow> chunk list \<Rightarrow> int \<Rightarrow> (js_error + similarity list) \<times> chunk list" where
  "findSimilar embedText query documents k =
     (case embedText query of
        Inl err \<Rightarrow> (Inl (Error ''Failed to find similar documents''), documents)
      | Inr queryEmbedding \<Rightarrow>
          (case embed_documents embedText documents of
             (Inl err, documents') \<Rightarrow> (Inl (Error ''Failed to find similar documents''), documents')
           | (Inr documentEmbeddings, documents') \<Rightarrow>
               (case similarities_from queryEmbedding documentEmbeddings documents' 0 of
                  Inl err \<Rightarrow> (Inl (Error ''Failed to find similar documents''), documents')
                | Inr similarities \<Rightarrow>
                    (Inr (slice0 (js_sort by_score_desc similarities) k), documents'))))"

section \<open>Embedding service: splitting text into chunks\<close>

text \<open>
  \<open>text.split(/[.!?]+/)\<close>: the pieces between maximal runs of sentence-ending
  punctuation, empty pieces at either end included.
\<close>

definition is_terminator :: "char \<Rightarrow> bool" where
  "is_terminator c \<longleftrightarrow> c = CHR ''.'' \<or> c = CHR ''!'' \<or> c = CHR ''?''"

function split_pieces :: "string \<Rightarrow> string \<Rightarrow> string list" where
  "split_pieces [] piece = [rev piece]"
| "split_pieces (c # cs) piece =
     (if is_terminator c then rev piece # split_pieces (dropWhile is_terminator cs) []
      else split_pieces cs (c # piece))"
  by pat_completeness auto
termination
proof (relation "measure (\<lambda>(s, piece). length s)")
  show "wf (measure (\<lambda>(s, piece). length s))" by simp
next
  fix c :: char and cs piece :: string
  have "length (dropWhile is_terminator cs) \<le> length cs"
    by (rule length_dropWhile_le)
  then show "((dropWhile is_terminator cs, []), c # cs, piece) \<in> measure (\<lambda>(s, piece). length s)"
    by simp
next
  fix c :: char and cs piece :: string
  show "((cs, c # piece), c # cs, piece) \<in> measure (\<lambda>(s, piece). length s)"
    by simp
qed

definition split_sentences :: "string \<Rightarrow> string list" where
  "split_sentences s = split_pieces s []"

text \<open>
  \<open>trim\<close> removes white space at both ends: of the code units below 256 these are tab,
  line feed, vertical tab, form feed, carriage return, space and no-break space.
\<close>

definition is_space :: "char \<Rightarrow> bool" where
  "is_space c \<longleftrightarrow> c \<in> set [CHR 0x09, CHR 0x0A, CHR 0x0B, CHR 0x0C, CHR 0x0D, CHR 0x20, CHR 0xA0]"

definition trim :: "string \<Rightarrow> string" where
  "trim s = rev (dropWhile is_space (rev (dropWhile is_space s)))"

text \<open>
  \<open>indexOf\<close> and \<open>lastIndexOf\<close>: the first and the last position at which the pattern
  occurs, \<open>-1\<close> when it does not occur.
\<close>

fun index_from :: "string \<Rightarrow> string \<Rightarrow> nat \<Rightarrow> int" where
  "index_from [] pat i = (if pat = [] then int i else - 1)"
| "index_from (c # cs) pat i = (if prefix pat (c # cs) then int i else index_from cs pat (Suc i))"

definition indexOf :: "string \<Rightarrow> string \<Rightarrow> int" where
  "indexOf s pat = index_from s pat 0"

fun last_index_from :: "string \<Rightarrow> string \<Rightarrow> nat \<Rightarrow> int \<Rightarrow> int" where
  "last_index_from [] pat i found = (if pat = [] then int i else found)"
| "last_index_from (c # cs) pat i found =
     last_index_from cs pat (Suc i) (if prefix pat (c # cs) then int i else found)"

definition lastIndexOf :: "string \<Rightarrow> string \<Rightarrow> int" where
  "lastIndexOf s pat = last_index_from s pat 0 (- 1)"

text \<open>The object pushed onto \<open>chunks\<close> for the current chunk.\<close>

definition make_chunk :: "string \<Rightarrow> nat \<Rightarrow> int \<Rightarrow> chunk" where
  "make_chunk currentChunk chunkIndex start =
     \<lparr>chunk_text = currentChunk @ ''.'', chunk_index = chunkIndex,
      metadata = \<lparr>startChar = start, meta_length = length currentChunk\<rparr>,
      embedding = None\<rparr>"

text \<open>
  The loop over the sentences, on the state \<open>(chunks, currentChunk, chunkIndex)\<close>. A
  sentence that fits is appended after \<open>'. '\<close>; otherwise the current chunk, if not empty,
  is pushed, and the next one starts with the sentence, preceded by the last \<open>overlap\<close>
  characters of the old one and \<open>'. '\<close> when the old one is longer than a positive
  \<open>overlap\<close>.
\<close>

fun pack_sentences ::
  "string \<Rightarrow> int \<Rightarrow> int \<Rightarrow> string list \<Rightarrow> chunk list \<times> string \<times> nat \<Rightarrow> chunk list \<times> string \<times> nat" where
  "pack_sentences txt chunkSize overlap [] st = st"
| "pack_sentences txt chunkSize overlap (sentence # rest) (chunks, currentChunk, chunkIndex) =
     (let trimmedSentence = trim sentence in
      if int (length currentChunk) + int (length trimmedSentence) + 1 \<le> chunkSize then
        pack_sentences txt chunkSize overlap rest
          (chunks, currentChunk @ (if currentChunk \<noteq> [] then ''. '' else []) @ trimmedSentence,
           chunkIndex)
      else
        (let (chunks', chunkIndex') =
               (if currentChunk \<noteq> []
                then (chunks @ [make_chunk currentChunk chunkIndex (indexOf txt currentChunk)],
                      Suc chunkIndex)
                else (chunks, chunkIndex));
             currentChunk' =
               (if overlap > 0 \<and> int (length currentChunk) > overlap
                then drop (length currentChunk - nat overlap) currentChunk @ ''. '' @ trimmedSentence
                else trimmedSentence)
         in pack_sentences txt chunkSize overlap rest (chunks', currentChunk', chunkIndex')))"

definition sentences_of :: "string \<Rightarrow> string list" where
  "sentences_of txt = filter (\<lambda>s. length (trim s) > 0) (split_sentences txt)"

definition splitText :: "string \<Rightarrow> int \<Rightarrow> int \<Rightarrow> chunk list" where
  "splitText txt chunkSize overlap =
     (case pack_sentences txt chunkSize overlap (sentences_of txt) ([], [], 0) of
        (chunks, currentChunk, chunkIndex) \<Rightarrow>
          (if currentChunk \<noteq> []
           then chunks @ [make_chunk currentChunk chunkIndex (lastIndexOf txt currentChunk)]
           else chunks))"

section \<open>Embedding service: relevant context\<close>

text \<open>\<open>parts.join(sep)\<close>.\<close>

fun join :: "string list \<Rightarrow> string \<Rightarrow> string" where
  "join [] sep = []"
| "join [x] sep = x"
| "join (x # y # ys) sep = x @ sep @ join (y # ys) sep"

text \<open>
  \<open>getRelevantContext\<close>: the chunks of the context with size 1000 and overlap 200; the
  context itself when there are at most \<open>k\<close> of them or when ranking throws; otherwise
  the texts of the ranked chunks joined by a blank line.
\<close>

definition getRelevantContext :: "embedder \<Rightarrow> string \<Rightarrow> string \<Rightarrow> int \<Rightarrow> string" where
  "getRelevantContext embedText context_text query k =
     (let chunks = splitText context_text 1000 200 in
      if int (length chunks) \<le> k then context_text
      else
        (case findSimilar embedText query chunks k of
           (Inl err, _) \<Rightarrow> context_text
         | (Inr similarChunks, _) \<Rightarrow>
             join (map (\<lambda>r. chunk_text (document r)) similarChunks) [CHR 0x0A, CHR 0x0A]))"

section \<open>Request router: the request store\<close>

text \<open>
  JavaScript values as the router meets them in a parsed JSON body and writes them into
  a response: \<open>undefined\<close> for an absent property, \<open>null\<close>, booleans, numbers, strings,
  arrays and objects.
\<close>

datatype js_value =
    JUndefined
  | JNull
  | JBool bool
  | JNum real
  | JStr string
  | JArr "js_value list"
  | JObj "(string \<times> js_value) list"

text \<open>What \<open>!v\<close> tests: \<open>undefined\<close>, \<open>null\<close>, \<open>false\<close>, \<open>0\<close> and \<open>''\<close> are falsy.\<close>

fun falsy :: "js_value \<Rightarrow> bool" where
  "falsy JUndefined = True"
| "falsy JNull = True"
| "falsy (JBool b) = (\<not> b)"
| "falsy (JNum n) = (n = 0)"
| "falsy (JStr s) = (s = [])"
| "falsy (JArr _) = False"
| "falsy (JObj _) = False"

text \<open>
  \<open>req.body\<close> is the parsed JSON object of the request: a property lookup that yields
  \<open>undefined\<close> where the body has no such property.
\<close>

type_synonym request_body = "string \<Rightarrow> js_value"

text \<open>A response: the HTTP status and the properties of the JSON body, in the order written.\<close>

record response =
  code :: nat
  body :: "(string \<times> js_value) list"

text \<open>
  The object \<open>ragService.generateResponse\<close> resolves to, restricted to the properties
  the router reads, and the citation objects in it.
\<close>

record citation =
  title :: string
  content :: string
  section_no :: nat

record rag_result =
  answer :: string
  citations :: "citation list"
  themes :: string
  processingTime :: int

text \<open>
  What \<open>contextProcessor.processContext\<close> resolves to: the context, the weak concepts
  and the two lists of \<open>Stats\<close>.
\<close>

record processed_data =
  processed_context :: string
  processed_weakConcepts :: js_value
  areasOfDifficulty :: "string list"
  learningProgressSummary :: "string list"

text \<open>
  An entry of \<open>requestStore\<close>. \<open>progress\<close>, \<open>message\<close>, \<open>result\<close> and \<open>error\<close> are
  absent (\<open>None\<close>) until \<open>processRAGRequest\<close> assigns them.
\<close>

record request =
  status :: string
  question :: js_value
  context_of :: js_value
  weakConcepts :: js_value
  createdAt :: int
  service :: string
  progress :: "nat option"
  message :: "string option"
  result :: "rag_result option"
  error :: "string option"

text \<open>
  \<open>processRAGRequest\<close> is suspended at one of its two \<open>await\<close>s; the suspended call keeps
  its \<open>startTime\<close>.
\<close>

datatype await_point = AwaitProcessContext | AwaitGenerateResponse

record suspended =
  await_at :: await_point
  startTime :: int

text \<open>
  The state of the server process: the \<open>requestStore\<close> map, the suspended calls of
  \<open>processRAGRequest\<close> by request id, and the timers set by \<open>setTimeout\<close>, each with the
  time at which it is due (in milliseconds) and the id it will delete.
\<close>

record server =
  requestStore :: "string \<rightharpoonup> request"
  suspended_calls :: "string \<rightharpoonup> suspended"
  timers :: "(int \<times> string) list"

definition initial_server :: server where
  "initial_server = \<lparr>requestStore = Map.empty, suspended_calls = Map.empty, timers = []\<rparr>"

text \<open>Assignments to the properties of the stored request object.\<close>

definition update_request :: "server \<Rightarrow> string \<Rightarrow> (request \<Rightarrow> request) \<Rightarrow> server" where
  "update_request s requestId f =
     (case requestStore s requestId of
        None \<Rightarrow> s
      | Some r \<Rightarrow> s\<lparr>requestStore := (requestStore s)(requestId \<mapsto> f r)\<rparr>)"

section \<open>Request router: processRAGRequest\<close>

text \<open>
  \<open>processRAGRequest\<close> up to its first \<open>await\<close>: it returns at once when the store has
  no such request; otherwise it reads the clock, sets status, progress and message and
  waits for \<open>contextProcessor.processContext\<close>.
\<close>

definition processRAGRequest_start :: "server \<Rightarrow> string \<Rightarrow> int \<Rightarrow> server" where
  "processRAGRequest_start s requestId now =
     (case requestStore s requestId of
        None \<Rightarrow> s
      | Some r \<Rightarrow>
          (update_request s requestId
             (\<lambda>r. r\<lparr>status := ''processing'', progress := Some 10,
                      message := Some ''Processing context...''\<rparr>))
          \<lparr>suspended_calls :=
             (suspended_calls s)(requestId \<mapsto> \<lparr>await_at = AwaitProcessContext, startTime = now\<rparr>)\<rparr>)"

text \<open>
  The \<open>catch\<close> block: the request is looked up again and, if present, marked with
  the status \<open>'error'\<close>, the message of the thrown error and \<open>'Processing failed'\<close>. The call
  of \<open>processRAGRequest\<close> ends here.
\<close>

definition processRAGRequest_catch :: "server \<Rightarrow> string \<Rightarrow> js_error \<Rightarrow> server" where
  "processRAGRequest_catch s requestId err =
     (update_request s requestId
        (\<lambda>r. r\<lparr>status := ''error'', error := Some (message_of err),
                 message := Some ''Processing failed''\<rparr>))
     \<lparr>suspended_calls := (suspended_calls s)(requestId := None)\<rparr>"

text \<open>
  The first \<open>await\<close> settles: \<open>processContext\<close> has thrown, or it has resolved and
  the call goes on to \<open>ragService.generateResponse\<close>.
\<close>

definition processRAGRequest_context ::
  "server \<Rightarrow> string \<Rightarrow> js_error + processed_data \<Rightarrow> server" where
  "processRAGRequest_context s requestId outcome =
     (case suspended_calls s requestId of
        None \<Rightarrow> s
      | Some call \<Rightarrow>
          (if await_at call \<noteq> AwaitProcessContext then s
           else
             (case outcome of
                Inl err \<Rightarrow> processRAGRequest_catch s requestId err
              | Inr processedData \<Rightarrow>
                  (update_request s requestId
                     (\<lambda>r. r\<lparr>progress := Some 30, message := Some ''Generating embeddings...''\<rparr>))
                  \<lparr>suspended_calls :=
                     (suspended_calls s)(requestId \<mapsto> call\<lparr>await_at := AwaitGenerateResponse\<rparr>)\<rparr>)))"

text \<open>
  The second \<open>await\<close> settles at time \<open>now\<close>: \<open>generateResponse\<close> has thrown, or the
  request is completed with the result, its \<open>processingTime\<close> replaced by the time since
  \<open>startTime\<close>, and a timer of one hour is set that deletes the request.
\<close>

definition one_hour :: int where
  "one_hour = 60 * 60 * 1000"

definition processRAGRequest_response ::
  "server \<Rightarrow> string \<Rightarrow> js_error + rag_result \<Rightarrow> int \<Rightarrow> server" where
  "processRAGRequest_response s requestId outcome now =
     (case suspended_calls s requestId of
        None \<Rightarrow> s
      | Some call \<Rightarrow>
          (if await_at call \<noteq> AwaitGenerateResponse then s
           else
             (case outcome of
                Inl err \<Rightarrow> processRAGRequest_catch s requestId err
              | Inr res \<Rightarrow>
                  (update_request s requestId
                     (\<lambda>r. r\<lparr>progress := Some 100, status := ''completed'',
                              message := Some ''Processing complete'',
                              result := Some (res\<lparr>processingTime := now - startTime call\<rparr>)\<rparr>))
                  \<lparr>suspended_calls := (suspended_calls s)(requestId := None),
                   timers := timers s @ [(now + one_hour, requestId)]\<rparr>)))"

text \<open>The clock reaches \<open>now\<close>: every timer that is due runs \<open>requestStore.delete\<close>.\<close>

fun run_timers :: "server \<Rightarrow> int \<Rightarrow> (int \<times> string) list \<Rightarrow> server" where
  "run_timers s now [] = s\<lparr>timers := []\<rparr>"
| "run_timers s now ((due, requestId) # rest) =
     (if due \<le> now
      then run_timers (s\<lparr>requestStore := (requestStore s)(requestId := None)\<rparr>) now rest
      else (let s' = run_timers s now rest in s'\<lparr>timers := (due, requestId) # timers s'\<rparr>))"

definition advance_clock :: "server \<Rightarrow> int \<Rightarrow> server" where
  "advance_clock s now = run_timers s now (timers s)"

section \<open>Request router: the endpoints\<close>

definition bad_request :: response where
  "bad_request =
     \<lparr>code = 400,
      body = [(''success'', JBool False), (''error'', JStr ''Question and context are required'')]\<rparr>"

definition not_found :: response where
  "not_found =
     \<lparr>code = 404, body = [(''success'', JBool False), (''error'', JStr ''Request not found'')]\<rparr>"

definition service_mismatch :: response where
  "service_mismatch =
     \<lparr>code = 400, body = [(''success'', JBool False), (''error'', JStr ''Service mismatch'')]\<rparr>"

text \<open>
  \<open>POST /thehopper/ask\<close>. \<open>requestId\<close> is the value of \<open>uuidv4()\<close> and \<open>now\<close> the clock at
  the request. The call of \<open>processRAGRequest\<close> runs up to its first \<open>await\<close> before the
  response is sent.
\<close>

definition post_ask :: "server \<Rightarrow> request_body \<Rightarrow> string \<Rightarrow> int \<Rightarrow> server \<times> response" where
  "post_ask s req_body requestId now =
     (let question = req_body ''question'';
          context = req_body ''context'';
          weakConcepts = req_body ''weakConcepts''
      in if falsy question \<or> falsy context then (s, bad_request)
         else
           (let s' = s\<lparr>requestStore := (requestStore s)(requestId \<mapsto>
                       \<lparr>status = ''processing'', question = question, context_of = context,
                        weakConcepts = (if falsy weakConcepts then JArr [] else weakConcepts),
                        createdAt = now, service = ''thehopper'',
                        progress = None, message = None, result = None, error = None\<rparr>)\<rparr>
            in (processRAGRequest_start s' requestId now,
                \<lparr>code = 200,
                 body = [(''success'', JBool True), (''requestId'', JStr requestId),
                         (''message'', JStr ''Question submitted for processing'')]\<rparr>)))"

text \<open>\<open>GET /:service/status/:requestId\<close>.\<close>

definition get_status :: "server \<Rightarrow> string \<Rightarrow> string \<Rightarrow> response" where
  "get_status s svc requestId =
     (case requestStore s requestId of
        None \<Rightarrow> not_found
      | Some r \<Rightarrow>
          (if service r \<noteq> svc then service_mismatch
           else
             \<lparr>code = 200,
              body = [(''success'', JBool True), (''status'', JStr (status r)),
                      (''progress'', JNum (case progress r of None \<Rightarrow> 0 | Some p \<Rightarrow> real p)),
                      (''message'', JStr (case message r of None \<Rightarrow> [] | Some m \<Rightarrow> m))]\<rparr>))"

definition citation_json :: "citation \<Rightarrow> js_value" where
  "citation_json c =
     JObj [(''title'', JStr (title c)), (''content'', JStr (content c)),
           (''section'', JNum (real (section_no c)))]"

text \<open>
  \<open>GET /:service/result/:requestId\<close>. Reading \<open>request.result.answer\<close> of a request
  without a result throws, which the handler answers with 500.
\<close>

definition get_result :: "server \<Rightarrow> string \<Rightarrow> string \<Rightarrow> response" where
  "get_result s svc requestId =
     (case requestStore s requestId of
        None \<Rightarrow> not_found
      | Some r \<Rightarrow>
          (if service r \<noteq> svc then service_mismatch
           else if status r \<noteq> ''completed'' then
             \<lparr>code = 202,
              body = [(''success'', JBool False), (''error'', JStr ''Request not completed yet''),
                      (''status'', JStr (status r))]\<rparr>
           else
             (case result r of
                None \<Rightarrow>
                  \<lparr>code = 500,
                   body = [(''success'', JBool False), (''error'', JStr ''Failed to get request result'')]\<rparr>
              | Some res \<Rightarrow>
                  \<lparr>code = 200,
                   body = [(''success'', JBool True), (''answer'', JStr (answer res)),
                           (''citations'', JArr (map citation_json (citations res))),
                           (''themes'', JStr (themes res)),
                           (''processingTime'', JNum (real_of_int (processingTime res)))]\<rparr>)))"

section \<open>Notions used in the statements\<close>





text \<open>The test of the loop of \<open>splitText\<close>: the sentence still fits into the current chunk.\<close>

definition fits :: "int \<Rightarrow> string \<Rightarrow> string \<Rightarrow> bool" where
  "fits chunkSize currentChunk trimmedSentence \<longleftrightarrow>
     int (length currentChunk) + int (length trimmedSentence) + 1 \<le> chunkSize"

text \<open>
  The current chunk that the loop of \<open>splitText\<close> starts when a sentence does not fit,
  given the content of the chunk before: the sentence, preceded by the last \<open>overlap\<close>
  characters of that content and \<open>'. '\<close> exactly when \<open>overlap\<close> is positive and the content
  is longer than \<open>overlap\<close>.
\<close>

definition carried_start :: "int \<Rightarrow> string \<Rightarrow> string \<Rightarrow> string" where
  "carried_start overlap previous trimmedSentence =
     (if overlap > 0 \<and> int (length previous) > overlap
      then drop (length previous - nat overlap) previous @ ''. '' @ trimmedSentence
      else trimmedSentence)"

text \<open>
  The content of the chunk before chunk \<open>j\<close>: its text without the final \<open>'.'\<close>, and the
  empty string before the first chunk.
\<close>

definition previous_content :: "chunk list \<Rightarrow> nat \<Rightarrow> string" where
  "previous_content chunks j = (if j = 0 then [] else butlast (chunk_text (chunks ! (j - 1))))"

text \<open>
  Chunk \<open>j\<close> holds the sentence \<open>t\<close> and no other: its text is \<open>t\<close> and \<open>'.'\<close>, preceded
  by what is carried over from the chunk before, if anything is.
\<close>

definition long_chunk_at :: "chunk list \<Rightarrow> nat \<Rightarrow> string \<Rightarrow> int \<Rightarrow> bool" where
  "long_chunk_at chunks j t overlap \<longleftrightarrow>
     j < length chunks \<and>
     chunk_text (chunks ! j) = carried_start overlap (previous_content chunks j) t @ ''.''"

text \<open>
  Two invariants of the loop of \<open>splitText\<close> for a piece of text \<open>t\<close>: \<open>t\<close> lies within a
  chunk already pushed or within the current chunk; and \<open>t\<close> is held by a chunk already
  pushed as above, or the current chunk is the one started for \<open>t\<close> and is longer than
  \<open>chunkSize\<close>.
\<close>

definition covered :: "string \<Rightarrow> chunk list \<Rightarrow> string \<Rightarrow> bool" where
  "covered t chunks currentChunk \<longleftrightarrow>
     (\<exists>c\<in>set chunks. sublist t (chunk_text c)) \<or> (currentChunk \<noteq> [] \<and> sublist t currentChunk)"

definition long_pending :: "string \<Rightarrow> int \<Rightarrow> int \<Rightarrow> chunk list \<Rightarrow> string \<Rightarrow> bool" where
  "long_pending t chunkSize overlap chunks currentChunk \<longleftrightarrow>
     (\<exists>j. long_chunk_at chunks j t overlap) \<or>
     (currentChunk \<noteq> [] \<and> chunkSize < int (length currentChunk) \<and>
      currentChunk =
        carried_start overlap (if chunks = [] then [] else butlast (chunk_text (last chunks))) t)"

text \<open>
  The states the server can be in: it starts with an empty store, and then requests are
  submitted, the two \<open>await\<close>s of any call of \<open>processRAGRequest\<close> settle, either way,
  and time passes.
\<close>

inductive reachable :: "server \<Rightarrow> bool" where
  start: "reachable initial_server"
| ask: "reachable s \<Longrightarrow> reachable (fst (post_ask s req_body requestId now))"
| context_settled: "reachable s \<Longrightarrow> reachable (processRAGRequest_context s requestId outcome)"
| response_settled: "reachable s \<Longrightarrow> reachable (processRAGRequest_response s requestId outcome' now)"
| clock: "reachable s \<Longrightarrow> reachable (advance_clock s now)"

text \<open>
  A stored request is in one of three conditions: processing with neither result nor
  error, completed with a result and no error, or marked \<open>'error'\<close> with an error and no
  result. In a consistent store every request is, and a request whose call of
  \<open>processRAGRequest\<close> is still suspended is processing.
\<close>

definition request_consistent :: "request \<Rightarrow> bool" where
  "request_consistent r \<longleftrightarrow>
     (status r = ''processing'' \<and> result r = None \<and> error r = None) \<or>
     (status r = ''completed'' \<and> result r \<noteq> None \<and> error r = None) \<or>
     (status r = ''error'' \<and> result r = None \<and> error r \<noteq> None)"

definition store_consistent :: "server \<Rightarrow> bool" where
  "store_consistent s \<longleftrightarrow>
     (\<forall>requestId r. requestStore s requestId = Some r \<longrightarrow>
        request_consistent r \<and>
        (suspended_calls s requestId \<noteq> None \<longrightarrow> status r = ''processing''))"

section \<open>Example data\<close>

text \<open>
  Three documents and an embedding function that maps them to vectors of norm 2:
  against the query vector \<open>[2, 0]\<close> the second document has cosine similarity 1 and the
  first and third have 0.
\<close>

definition example_documents :: "chunk list" where
  "example_documents = [make_chunk ''ab'' 0 0, make_chunk ''cd'' 1 4, make_chunk ''ef'' 2 8]"

definition example_embed :: embedder where
  "example_embed s =
     (if s = ''ab.'' then Inr [0, 2]
      else if s = ''cd.'' then Inr [2, 0]
      else if s = ''ef.'' then Inr [0, 2]
      else Inr [2, 0])"

definition example_cached :: "chunk list" where
  "example_cached =
     [(make_chunk ''ab'' 0 0)\<lparr>embedding := Some [0, 2]\<rparr>,
      (make_chunk ''cd'' 1 4)\<lparr>embedding := Some [2, 0]\<rparr>,
      (make_chunk ''ef'' 2 8)\<lparr>embedding := Some [0, 2]\<rparr>]"

definition example_ranking :: "similarity list" where
  "example_ranking =
     [\<lparr>index = 1, score = 1, document = (make_chunk ''cd'' 1 4)\<lparr>embedding := Some [2, 0]\<rparr>\<rparr>,
      \<lparr>index = 0, score = 0, document = (make_chunk ''ab'' 0 0)\<lparr>embedding := Some [0, 2]\<rparr>\<rparr>,
      \<lparr>index = 2, score = 0, document = (make_chunk ''ef'' 2 8)\<lparr>embedding := Some [0, 2]\<rparr>\<rparr>]"

text \<open>
  A request body with a question and a context, the server after it was submitted as
  request \<open>''id-1''\<close> at time 1000, and that server after \<open>processContext\<close> has resolved.
\<close>

definition example_body :: request_body where
  "example_body k =
     (if k = ''question'' then JStr ''What is machine learning?''
      else if k = ''context'' then JStr ''Machine learning is a subset of artificial intelligence.''
      else JUndefined)"

definition example_processed :: processed_data where
  "example_processed =
     \<lparr>processed_context = ''Machine learning is a subset of artificial intelligence.'',
      processed_weakConcepts = JArr [], areasOfDifficulty = [], learningProgressSummary = []\<rparr>"

definition submitted_server :: server where
  "submitted_server = fst (post_ask initial_server example_body ''id-1'' 1000)"

definition generating_server :: server where
  "generating_server = processRAGRequest_context submitted_server ''id-1'' (Inr example_processed)"

text \<open>The request fails in its first stage: \<open>processContext\<close> throws.\<close>

definition context_failed_server :: server where
  "context_failed_server =
     processRAGRequest_context submitted_server ''id-1'' (Inl (Error ''Failed to process context''))"

text \<open>The request fails in its second stage: the call of the language model throws.\<close>

definition generation_failed_server :: server where
  "generation_failed_server =
     processRAGRequest_response generating_server ''id-1''
       (Inl (Error ''RAG pipeline failed: Groq API error: Connection error.'')) 2500"

text \<open>The request completes at time 2500.\<close>

definition example_result :: rag_result where
  "example_result =
     \<lparr>answer = ''It is a way to learn from data.'', citations = [], themes = [],
      processingTime = 1200\<rparr>"

definition completed_server :: server where
  "completed_server =
     processRAGRequest_response generating_server ''id-1'' (Inr example_result) 2500"

section \<open>Properties of cosine similarity\<close>

lemma cosine_loop_sums:
  "length vecA = length vecB \<Longrightarrow>
   cosine_loop vecA vecB (d, p, q) =
     (d + (\<Sum>(a, b)\<leftarrow>zip vecA vecB. a * b), p + (\<Sum>x\<leftarrow>vecA. x * x), q + (\<Sum>x\<leftarrow>vecB. x * x))"
proof (induction vecA vecB arbitrary: d p q rule: list_induct2)
  case Nil
  show ?case by simp
next
  case (Cons a as b bs)
  show ?case by (simp add: Cons.IH algebra_simps)
qed

lemma sum_squares_nonneg: "0 \<le> (\<Sum>x\<leftarrow>v. x * x)" for v :: vec
  by (induction v) simp_all

lemma vec_norm_zero_iff: "vec_norm v = 0 \<longleftrightarrow> (\<forall>x\<in>set v. x = 0)"
proof (induction v)
  case Nil
  show ?case by (simp add: vec_norm_def)
next
  case (Cons x xs)
  have "x * x + (\<Sum>y\<leftarrow>xs. y * y) = 0 \<longleftrightarrow> x = 0 \<and> (\<Sum>y\<leftarrow>xs. y * y) = 0"
    using sum_squares_nonneg [of xs] by (auto simp: add_nonneg_eq_0_iff)
  with Cons show ?case by (simp add: vec_norm_def)
qed


text \<open>
  C9. For two vectors of equal length of which at least one has zero norm (equivalently,
  is all zeros), \<open>cosineSimilarity\<close> leaves through the zero-norm guard and returns 0: the
  division is not reached.
\<close>

theorem cosineSimilarity_zero_norm:
  assumes "length vecA = length vecB"
    and "vec_norm vecA = 0 \<or> vec_norm vecB = 0"
  shows "cosine_exit vecA vecB = ZeroGuard \<and> cosineSimilarity vecA vecB = Inr 0"
proof -
  have "cosine_loop vecA vecB (0, 0, 0) =
      ((\<Sum>(a, b)\<leftarrow>zip vecA vecB. a * b), (\<Sum>x\<leftarrow>vecA. x * x), (\<Sum>x\<leftarrow>vecB. x * x))"
    using cosine_loop_sums [OF assms(1), of 0 0 0] by simp
  moreover have "sqrt (\<Sum>x\<leftarrow>vecA. x * x) = 0 \<or> sqrt (\<Sum>x\<leftarrow>vecB. x * x) = 0"
    using assms(2) by (simp add: vec_norm_def)
  ultimately have "cosine_exit vecA vecB = ZeroGuard"
    using assms(1) by (auto simp: cosine_exit_def Let_def)
  then show ?thesis by (simp add: cosineSimilarity_def)
qed

theorem cosineSimilarity_zero_norm_witness:
  "length [0, 0 :: real] = length [3, 4 :: real] \<and> (vec_norm [0, 0] = 0 \<or> vec_norm [3, 4] = 0) \<and>
   cosine_exit [0, 0] [3, 4] = ZeroGuard \<and> cosineSimilarity [0, 0] [3, 4] = Inr 0"
proof -
  have l: "length [0, 0 :: real] = length [3, 4 :: real]" by simp
  have z: "vec_norm [0, 0] = 0 \<or> vec_norm [3, 4] = 0" by (simp add: vec_norm_def)
  show ?thesis using l z cosineSimilarity_zero_norm [OF l z] by simp
qed

section \<open>Properties of findSimilar\<close>

lemma embed_documents_Cons:
  assumes "embed_documents embedText docs = (r0, docs0)"
  shows "embed_documents embedText (doc # docs) =
     (case embedding doc of
        Some e \<Rightarrow> (map_sum id (Cons e) r0, doc # docs0)
      | None \<Rightarrow>
          (case embedText (chunk_text doc) of
             Inl err \<Rightarrow> (Inl err, doc # docs)
           | Inr e \<Rightarrow> (map_sum id (Cons e) r0, doc\<lparr>embedding := Some e\<rparr> # docs0)))"
  using assms by (cases r0; cases "embedding doc"; cases "embedText (chunk_text doc)"; simp)

lemma embed_documents_length:
  "embed_documents embedText docs = (r, docs') \<Longrightarrow>
   length docs' = length docs \<and> (\<forall>es. r = Inr es \<longrightarrow> length es = length docs)"
proof (induction docs arbitrary: r docs')
  case Nil
  then show ?case by auto
next
  case (Cons doc docs)
  obtain r0 docs0 where rec: "embed_documents embedText docs = (r0, docs0)"
    by (cases "embed_documents embedText docs")
  note ih = Cons.IH [OF rec]
  show ?case
    using Cons.prems ih unfolding embed_documents_Cons [OF rec]
    by (cases r0; cases "embedding doc"; cases "embedText (chunk_text doc)"; auto)
qed



lemma similarities_from_shape:
  "similarities_from q es docs i = Inr sims \<Longrightarrow>
   map index sims = [i ..< i + length es] \<and> (\<forall>r\<in>set sims. document r = docs ! index r)"
proof (induction es arbitrary: i sims)
  case Nil
  then show ?case by simp
next
  case (Cons e es)
  from Cons.prems obtain s rest where
    s: "cosineSimilarity q e = Inr s"
    and rest: "similarities_from q es docs (Suc i) = Inr rest"
    and sims: "sims = \<lparr>index = i, score = s, document = docs ! i\<rparr> # rest"
    by (auto split: sum.splits)
  have "map index rest = [Suc i ..< Suc i + length es]"
    and "\<forall>r\<in>set rest. document r = docs ! index r"
    using Cons.IH [OF rest] by simp_all
  moreover have "[i ..< i + length (e # es)] = i # [Suc i ..< Suc i + length es]"
    by (simp add: upt_conv_Cons del: upt_Suc)
  ultimately show ?case
    unfolding sims by simp
qed



lemma length_insert_by: "length (insert_by cmp x ys) = Suc (length ys)"
  by (induction ys) simp_all

lemma length_js_sort: "length (js_sort cmp xs) = length xs"
  by (induction xs) (simp_all add: js_sort_def length_insert_by)



lemma length_slice0:
  "int (length (slice0 xs k)) = (if k < 0 then max (int (length xs) + k) 0 else min k (int (length xs)))"
  by (auto simp: slice0_def Let_def)






lemma findSimilar_Inr:
  assumes "findSimilar embedText query documents k = (Inr results, documents')"
  obtains q es sims where
    "embedText query = Inr q"
    "embed_documents embedText documents = (Inr es, documents')"
    "similarities_from q es documents' 0 = Inr sims"
    "results = slice0 (js_sort by_score_desc sims) k"
  using assms unfolding findSimilar_def
  by (auto split: sum.splits prod.splits)

text \<open>
  C4 (as amended). Whenever \<open>findSimilar\<close> returns, the number of results is decided by
  \<open>slice(0, k)\<close>: \<open>min k n\<close> for \<open>0 \<le> k\<close> and \<open>max (n + k) 0\<close> for \<open>k < 0\<close>, where \<open>n\<close> is the
  number of documents. A negative \<open>k\<close> is not clamped to 0: it drops the last \<open>-k\<close> results.
\<close>

theorem findSimilar_count:
  assumes "findSimilar embedText query documents k = (Inr results, documents')"
  shows "int (length results) =
           (if k < 0 then max (int (length documents) + k) 0 else min k (int (length documents)))"
proof -
  from assms obtain q es sims where
    e: "embed_documents embedText documents = (Inr es, documents')"
    and s: "similarities_from q es documents' 0 = Inr sims"
    and r: "results = slice0 (js_sort by_score_desc sims) k"
    by (rule findSimilar_Inr)
  have "length es = length documents"
    using embed_documents_length [OF e] by simp
  moreover have "length sims = length es"
    using similarities_from_shape [OF s] by (metis add_0 length_map length_upt diff_zero)
  ultimately have "length (js_sort by_score_desc sims) = length documents"
    by (simp add: length_js_sort)
  then show ?thesis
    using length_slice0 [of "js_sort by_score_desc sims" k] r by simp
qed

theorem findSimilar_count_witness:
  "findSimilar example_embed ''q'' example_documents 5 = (Inr example_ranking, example_cached) \<and>
   int (length example_ranking) =
     (if (5::int) < 0 then max (int (length example_documents) + 5) 0
      else min 5 (int (length example_documents)))"
proof -
  have h: "findSimilar example_embed ''q'' example_documents 5 = (Inr example_ranking, example_cached)"
    by (simp add: findSimilar_def example_embed_def example_documents_def example_ranking_def
        example_cached_def make_chunk_def cosineSimilarity_def cosine_exit_def js_sort_def
        by_score_desc_def slice0_def)
  show ?thesis using h findSimilar_count [OF h] by simp
qed

text \<open>
  The claim C4 as stated fails: with three documents and \<open>k = -1\<close> the clamped count
  would be 0, and \<open>findSimilar\<close> returns two results.
\<close>

theorem findSimilar_negative_k_counterexample:
  "map_sum id length (fst (findSimilar example_embed ''q'' example_documents (- 1))) = Inr 2 \<and>
   (2::int) \<noteq> min (max (- 1) 0) (int (length example_documents))"
  by (simp add: findSimilar_def example_embed_def example_documents_def make_chunk_def
      cosineSimilarity_def cosine_exit_def js_sort_def by_score_desc_def slice0_def)



subsection \<open>Relevant context\<close>

text \<open>
  C6. When the context splits (chunk size 1000, overlap 200) into at most \<open>k\<close> chunks,
  \<open>getRelevantContext\<close> returns the context itself, character for character, whatever the
  embedding model and the query are: no ranking takes part in the result.
\<close>

theorem getRelevantContext_few_chunks:
  assumes "int (length (splitText context_text 1000 200)) \<le> k"
  shows "getRelevantContext embedText context_text query k = context_text"
  using assms by (simp add: getRelevantContext_def Let_def)

theorem getRelevantContext_few_chunks_witness:
  "int (length (splitText ''Machine learning learns from data. It is a subset of AI!'' 1000 200)) \<le> 4 \<and>
   getRelevantContext example_embed ''Machine learning learns from data. It is a subset of AI!''
     ''What is machine learning?'' 4 = ''Machine learning learns from data. It is a subset of AI!''"
proof -
  have h: "int (length (splitText ''Machine learning learns from data. It is a subset of AI!'' 1000 200)) \<le> 4"
    by (simp add: splitText_def sentences_of_def split_sentences_def is_terminator_def trim_def
        is_space_def)
  show ?thesis
    using h getRelevantContext_few_chunks [OF h, of example_embed "''What is machine learning?''"]
    by simp
qed

section \<open>Properties of splitText\<close>

lemma pack_fits:
  "fits chunkSize cur (trim s) \<Longrightarrow>
   pack_sentences txt chunkSize overlap (s # rest) (chunks, cur, idx) =
   pack_sentences txt chunkSize overlap rest
     (chunks, cur @ (if cur \<noteq> [] then ''. '' else []) @ trim s, idx)"
  by (simp add: fits_def Let_def)

lemma pack_overflow:
  "\<not> fits chunkSize cur (trim s) \<Longrightarrow>
   pack_sentences txt chunkSize overlap (s # rest) (chunks, cur, idx) =
   pack_sentences txt chunkSize overlap rest
     (if cur \<noteq> [] then chunks @ [make_chunk cur idx (indexOf txt cur)] else chunks,
      if overlap > 0 \<and> int (length cur) > overlap
      then drop (length cur - nat overlap) cur @ ''. '' @ trim s else trim s,
      if cur \<noteq> [] then Suc idx else idx)"
  by (simp add: fits_def Let_def)

lemma chunk_text_make_chunk [simp]: "chunk_text (make_chunk cur idx start) = cur @ ''.''"
  by (simp add: make_chunk_def)

lemma covered_step_fits:
  "covered t chunks cur \<Longrightarrow> covered t chunks (cur @ sep @ u)"
  unfolding covered_def by (auto intro: sublist_appendI sublist_order.order_trans)

lemma covered_step_overflow:
  "covered t chunks cur \<Longrightarrow>
   covered t (if cur \<noteq> [] then chunks @ [make_chunk cur idx start] else chunks) cur'"
  unfolding covered_def by (auto intro: sublist_appendI sublist_order.order_trans)

lemma pack_keeps_covered:
  "covered t chunks cur \<Longrightarrow>
   pack_sentences txt chunkSize overlap ss (chunks, cur, idx) = (chunks', cur', idx') \<Longrightarrow>
   covered t chunks' cur'"
proof (induction ss arbitrary: chunks cur idx)
  case Nil
  then show ?case by simp
next
  case (Cons s ss)
  show ?case
  proof (cases "fits chunkSize cur (trim s)")
    case True
    show ?thesis
      using Cons.IH [OF covered_step_fits [OF Cons.prems(1)]] Cons.prems(2)
      unfolding pack_fits [OF True] by blast
  next
    case False
    show ?thesis
      using Cons.IH [OF covered_step_overflow [OF Cons.prems(1)]] Cons.prems(2)
      unfolding pack_overflow [OF False] by blast
  qed
qed

lemma pack_covers:
  "s \<in> set ss \<Longrightarrow> trim s \<noteq> [] \<Longrightarrow>
   pack_sentences txt chunkSize overlap ss (chunks, cur, idx) = (chunks', cur', idx') \<Longrightarrow>
   covered (trim s) chunks' cur'"
proof (induction ss arbitrary: chunks cur idx)
  case Nil
  then show ?case by simp
next
  case (Cons x ss)
  show ?case
  proof (cases "s = x")
    case here: True
    show ?thesis
    proof (cases "fits chunkSize cur (trim x)")
      case True
      have "sublist (trim s) (cur @ (if cur \<noteq> [] then ''. '' else []) @ trim x)"
        using here sublist_appendI [of "trim x" "cur @ (if cur \<noteq> [] then ''. '' else [])" "[]"]
        by simp
      moreover have "cur @ (if cur \<noteq> [] then ''. '' else []) @ trim x \<noteq> []"
        using Cons.prems(2) here by simp
      ultimately have "covered (trim s) chunks (cur @ (if cur \<noteq> [] then ''. '' else []) @ trim x)"
        unfolding covered_def by blast
      then show ?thesis
        using Cons.prems(3) unfolding pack_fits [OF True] by (rule pack_keeps_covered)
    next
      case False
      have "sublist (trim s) (drop (length cur - nat overlap) cur @ ''. '' @ trim x)"
        using here sublist_appendI [of "trim x" "drop (length cur - nat overlap) cur @ ''. ''" "[]"]
        by simp
      moreover have "sublist (trim s) (trim x)"
        using here by simp
      ultimately have "sublist (trim s)
          (if overlap > 0 \<and> int (length cur) > overlap
           then drop (length cur - nat overlap) cur @ ''. '' @ trim x else trim x)"
        by presburger
      moreover have "(if overlap > 0 \<and> int (length cur) > overlap
           then drop (length cur - nat overlap) cur @ ''. '' @ trim x else trim x) \<noteq> []"
        using Cons.prems(2) here by simp
      ultimately have "covered (trim s)
          (if cur \<noteq> [] then chunks @ [make_chunk cur idx (indexOf txt cur)] else chunks)
          (if overlap > 0 \<and> int (length cur) > overlap
           then drop (length cur - nat overlap) cur @ ''. '' @ trim x else trim x)"
        unfolding covered_def by blast
      then show ?thesis
        using Cons.prems(3) unfolding pack_overflow [OF False] by (rule pack_keeps_covered)
    qed
  next
    case False
    then have mem: "s \<in> set ss" using Cons.prems(1) by simp
    show ?thesis
    proof (cases "fits chunkSize cur (trim x)")
      case True
      show ?thesis
        using Cons.IH [OF mem Cons.prems(2)] Cons.prems(3) unfolding pack_fits [OF True] by blast
    next
      case False
      show ?thesis
        using Cons.IH [OF mem Cons.prems(2)] Cons.prems(3) unfolding pack_overflow [OF False]
        by blast
    qed
  qed
qed

lemma splitText_covers:
  assumes "s \<in> set (sentences_of txt)"
  shows "\<exists>c\<in>set (splitText txt chunkSize overlap). sublist (trim s) (chunk_text c)"
proof -
  have ne: "trim s \<noteq> []"
    using assms by (simp add: sentences_of_def)
  obtain chunks cur idx where
    p: "pack_sentences txt chunkSize overlap (sentences_of txt) ([], [], 0) = (chunks, cur, idx)"
    by (cases "pack_sentences txt chunkSize overlap (sentences_of txt) ([], [], 0)")
  have "covered (trim s) chunks cur"
    using assms ne p by (rule pack_covers)
  then consider c where "c \<in> set chunks" "sublist (trim s) (chunk_text c)"
    | "cur \<noteq> []" "sublist (trim s) cur"
    unfolding covered_def by blast
  then show ?thesis
  proof cases
    case 1
    then show ?thesis unfolding splitText_def p by auto
  next
    case 2
    have "sublist cur (cur @ ''.'')"
      using sublist_appendI [of cur "[]" "''.''"] by simp
    with 2(2) have "sublist (trim s) (cur @ ''.'')"
      by (rule sublist_order.order_trans)
    then have "sublist (trim s) (chunk_text (make_chunk cur idx (lastIndexOf txt cur)))"
      by (simp only: chunk_text_make_chunk)
    then show ?thesis unfolding splitText_def p using 2(1) by auto
  qed
qed

lemma pack_overflow_carried:
  "\<not> fits chunkSize cur (trim s) \<Longrightarrow>
   pack_sentences txt chunkSize overlap (s # rest) (chunks, cur, idx) =
   pack_sentences txt chunkSize overlap rest
     (if cur \<noteq> [] then chunks @ [make_chunk cur idx (indexOf txt cur)] else chunks,
      carried_start overlap cur (trim s),
      if cur \<noteq> [] then Suc idx else idx)"
  unfolding carried_start_def by (rule pack_overflow)

lemma carried_start_nonempty: "t \<noteq> [] \<Longrightarrow> carried_start overlap p t \<noteq> []"
  by (simp add: carried_start_def)

lemma carried_start_length: "length t \<le> length (carried_start overlap p t)"
  by (auto simp: carried_start_def)

lemma long_chunk_at_append:
  "long_chunk_at chunks j t overlap \<Longrightarrow> long_chunk_at (chunks @ extra) j t overlap"
  by (auto simp: long_chunk_at_def previous_content_def nth_append)

lemma long_chunk_at_pushed:
  assumes "cur = carried_start overlap (if chunks = [] then [] else butlast (chunk_text (last chunks))) t"
  shows "long_chunk_at (chunks @ [make_chunk cur idx start]) (length chunks) t overlap"
proof (cases "chunks = []")
  case True
  then show ?thesis using assms by (simp add: long_chunk_at_def previous_content_def)
next
  case False
  then have "(chunks @ [make_chunk cur idx start]) ! (length chunks - 1) = last chunks"
    by (simp add: nth_append last_conv_nth)
  then show ?thesis
    using assms False by (simp add: long_chunk_at_def previous_content_def)
qed

lemma pack_keeps_long_pending:
  "long_pending t chunkSize overlap chunks cur \<Longrightarrow>
   pack_sentences txt chunkSize overlap ss (chunks, cur, idx) = (chunks', cur', idx') \<Longrightarrow>
   long_pending t chunkSize overlap chunks' cur'"
proof (induction ss arbitrary: chunks cur idx)
  case Nil
  then show ?case by simp
next
  case (Cons x ss)
  show ?case
  proof (cases "\<exists>j. long_chunk_at chunks j t overlap")
    case True
    then obtain j where j: "long_chunk_at chunks j t overlap" ..
    show ?thesis
    proof (cases "fits chunkSize cur (trim x)")
      case f: True
      have "long_pending t chunkSize overlap chunks
              (cur @ (if cur \<noteq> [] then ''. '' else []) @ trim x)"
        using j unfolding long_pending_def by blast
      then show ?thesis
        using Cons.prems(2) unfolding pack_fits [OF f] by (rule Cons.IH)
    next
      case f: False
      have "long_chunk_at
          (if cur \<noteq> [] then chunks @ [make_chunk cur idx (indexOf txt cur)] else chunks) j t overlap"
        using j long_chunk_at_append [OF j] by simp
      then have "long_pending t chunkSize overlap
          (if cur \<noteq> [] then chunks @ [make_chunk cur idx (indexOf txt cur)] else chunks)
          (carried_start overlap cur (trim x))"
        unfolding long_pending_def by blast
      then show ?thesis
        using Cons.prems(2) unfolding pack_overflow_carried [OF f] by (rule Cons.IH)
    qed
  next
    case False
    then have cur: "cur \<noteq> []" "chunkSize < int (length cur)"
      "cur = carried_start overlap (if chunks = [] then [] else butlast (chunk_text (last chunks))) t"
      using Cons.prems(1) unfolding long_pending_def by blast+
    have f: "\<not> fits chunkSize cur (trim x)"
      using cur(2) by (simp add: fits_def)
    have "long_chunk_at (chunks @ [make_chunk cur idx (indexOf txt cur)]) (length chunks) t overlap"
      using cur(3) by (rule long_chunk_at_pushed)
    then have "long_pending t chunkSize overlap
          (if cur \<noteq> [] then chunks @ [make_chunk cur idx (indexOf txt cur)] else chunks)
          (carried_start overlap cur (trim x))"
      using cur(1) unfolding long_pending_def by auto
    then show ?thesis
      using Cons.prems(2) unfolding pack_overflow_carried [OF f] by (rule Cons.IH)
  qed
qed

lemma pack_long_pending:
  "s \<in> set ss \<Longrightarrow> \<forall>x\<in>set ss. trim x \<noteq> [] \<Longrightarrow> chunkSize < int (length (trim s)) \<Longrightarrow>
   cur = [] \<longrightarrow> chunks = [] \<Longrightarrow>
   pack_sentences txt chunkSize overlap ss (chunks, cur, idx) = (chunks', cur', idx') \<Longrightarrow>
   long_pending (trim s) chunkSize overlap chunks' cur'"
proof (induction ss arbitrary: chunks cur idx)
  case Nil
  then show ?case by simp
next
  case (Cons x ss)
  have nx: "trim x \<noteq> []" using Cons.prems(2) by simp
  have nss: "\<forall>x\<in>set ss. trim x \<noteq> []" using Cons.prems(2) by simp
  show ?case
  proof (cases "s = x")
    case here: True
    have f: "\<not> fits chunkSize cur (trim x)"
      using Cons.prems(3) here by (simp add: fits_def)
    let ?chunks = "if cur \<noteq> [] then chunks @ [make_chunk cur idx (indexOf txt cur)] else chunks"
    let ?cur = "carried_start overlap cur (trim x)"
    have prev: "(if ?chunks = [] then [] else butlast (chunk_text (last ?chunks))) = cur"
      using Cons.prems(4) by auto
    have "?cur \<noteq> []" using nx by (rule carried_start_nonempty)
    moreover have "chunkSize < int (length ?cur)"
      using Cons.prems(3) here carried_start_length [of "trim x" overlap cur] by simp
    moreover have "?cur = carried_start overlap
        (if ?chunks = [] then [] else butlast (chunk_text (last ?chunks))) (trim s)"
      unfolding prev using here by simp
    ultimately have "long_pending (trim s) chunkSize overlap ?chunks ?cur"
      unfolding long_pending_def by blast
    then show ?thesis
      using Cons.prems(5) unfolding pack_overflow_carried [OF f] by (rule pack_keeps_long_pending)
  next
    case False
    then have mem: "s \<in> set ss" using Cons.prems(1) by simp
    show ?thesis
    proof (cases "fits chunkSize cur (trim x)")
      case True
      have a: "cur @ (if cur \<noteq> [] then ''. '' else []) @ trim x = [] \<longrightarrow> chunks = []"
        using nx by simp
      show ?thesis
        using Cons.IH [OF mem nss Cons.prems(3) a] Cons.prems(5) unfolding pack_fits [OF True]
        by blast
    next
      case False
      have a: "carried_start overlap cur (trim x) = [] \<longrightarrow>
          (if cur \<noteq> [] then chunks @ [make_chunk cur idx (indexOf txt cur)] else chunks) = []"
        using carried_start_nonempty [OF nx] by simp
      show ?thesis
        using Cons.IH [OF mem nss Cons.prems(3) a] Cons.prems(5)
        unfolding pack_overflow_carried [OF False] by blast
    qed
  qed
qed

lemma splitText_long_chunk:
  assumes "s \<in> set (sentences_of txt)" and "chunkSize < int (length (trim s))"
  shows "\<exists>j. long_chunk_at (splitText txt chunkSize overlap) j (trim s) overlap"
proof -
  have ne: "\<forall>x\<in>set (sentences_of txt). trim x \<noteq> []"
    by (simp add: sentences_of_def)
  obtain chunks cur idx where
    p: "pack_sentences txt chunkSize overlap (sentences_of txt) ([], [], 0) = (chunks, cur, idx)"
    by (cases "pack_sentences txt chunkSize overlap (sentences_of txt) ([], [], 0)")
  have a: "([]::string) = [] \<longrightarrow> ([]::chunk list) = []" by simp
  have "long_pending (trim s) chunkSize overlap chunks cur"
    using assms(1) ne assms(2) a p by (rule pack_long_pending)
  then consider j where "long_chunk_at chunks j (trim s) overlap"
    | "cur \<noteq> []"
      "cur = carried_start overlap (if chunks = [] then [] else butlast (chunk_text (last chunks))) (trim s)"
    unfolding long_pending_def by blast
  then show ?thesis
  proof cases
    case 1
    have "long_chunk_at (if cur \<noteq> [] then chunks @ [make_chunk cur idx (lastIndexOf txt cur)] else chunks)
        j (trim s) overlap"
      using 1 long_chunk_at_append [OF 1] by simp
    then show ?thesis unfolding splitText_def p by auto
  next
    case 2
    have "long_chunk_at (chunks @ [make_chunk cur idx (lastIndexOf txt cur)]) (length chunks)
        (trim s) overlap"
      using 2(2) by (rule long_chunk_at_pushed)
    then show ?thesis unfolding splitText_def p using 2(1) by auto
  qed
qed

text \<open>
  C7 (as amended). For every text, chunk size and overlap, every sentence of the text (a
  piece between runs of \<open>.\<close>, \<open>!\<close> and \<open>?\<close> that is not blank, trimmed) lies whole within
  the text of some chunk. A sentence longer than the chunk size is the only sentence
  packed into its chunk: the text of that chunk is the sentence and \<open>'.'\<close>, preceded by
  the last \<open>overlap\<close> characters of the content of the chunk before it and \<open>'. '\<close> exactly
  when the overlap is positive and that content is longer than the overlap.
\<close>

theorem splitText_sentences_whole:
  assumes "s \<in> set (sentences_of txt)"
  shows "(\<exists>c\<in>set (splitText txt chunkSize overlap). sublist (trim s) (chunk_text c)) \<and>
         (chunkSize < int (length (trim s)) \<longrightarrow>
            (\<exists>j. long_chunk_at (splitText txt chunkSize overlap) j (trim s) overlap))"
  using splitText_covers [OF assms] splitText_long_chunk [OF assms] by blast

theorem splitText_sentences_whole_witness:
  "'' Gradient descent minimises a loss'' \<in> set (sentences_of ''Hello there! Gradient descent minimises a loss.'') \<and>
   12 < int (length (trim '' Gradient descent minimises a loss'')) \<and>
   (\<exists>c\<in>set (splitText ''Hello there! Gradient descent minimises a loss.'' 12 3).
      sublist (trim '' Gradient descent minimises a loss'') (chunk_text c)) \<and>
   (\<exists>j. long_chunk_at (splitText ''Hello there! Gradient descent minimises a loss.'' 12 3) j
      (trim '' Gradient descent minimises a loss'') 3) \<and>
   map chunk_text (splitText ''Hello there! Gradient descent minimises a loss.'' 12 3) =
     [''Hello there.'', ''ere. Gradient descent minimises a loss.'']"
proof -
  have s: "sentences_of ''Hello there! Gradient descent minimises a loss.'' =
      [''Hello there'', '' Gradient descent minimises a loss'']"
    by (simp add: sentences_of_def split_sentences_def is_terminator_def trim_def is_space_def)
  have h: "'' Gradient descent minimises a loss'' \<in> set (sentences_of ''Hello there! Gradient descent minimises a loss.'')"
    unfolding s by simp
  have t: "trim '' Gradient descent minimises a loss'' = ''Gradient descent minimises a loss''"
    "trim ''Hello there'' = ''Hello there''"
    by (simp_all add: trim_def is_space_def)
  have l: "12 < int (length (trim '' Gradient descent minimises a loss''))"
    unfolding t by simp
  have c: "map chunk_text (splitText ''Hello there! Gradient descent minimises a loss.'' 12 3) =
     [''Hello there.'', ''ere. Gradient descent minimises a loss.'']"
    unfolding splitText_def s by (simp add: t Let_def)
  show ?thesis
    using h l c splitText_sentences_whole [OF h, of 12 3] by blast
qed

text \<open>
  The claim C7 as stated fails where it says that a sentence longer than the chunk size
  is a chunk of its own: with chunk size 5 and overlap 2 the sentence \<open>bbbbbbbbbbbb\<close> of
  the text \<open>aaaa. bbbbbbbbbbbb\<close> is longer than 5, and the chunk that holds it begins with
  \<open>aa\<close>, the end of the sentence before, cut in its middle.
\<close>

theorem splitText_own_chunk_counterexample:
  "sentences_of ''aaaa. bbbbbbbbbbbb'' = [''aaaa'', '' bbbbbbbbbbbb''] \<and>
   5 < int (length (trim '' bbbbbbbbbbbb'')) \<and>
   map chunk_text (splitText ''aaaa. bbbbbbbbbbbb'' 5 2) = [''aaaa.'', ''aa. bbbbbbbbbbbb.''] \<and>
   trim '' bbbbbbbbbbbb'' @ ''.'' \<notin> set (map chunk_text (splitText ''aaaa. bbbbbbbbbbbb'' 5 2))"
proof -
  have s: "sentences_of ''aaaa. bbbbbbbbbbbb'' = [''aaaa'', '' bbbbbbbbbbbb'']"
    by (simp add: sentences_of_def split_sentences_def is_terminator_def trim_def is_space_def)
  have t: "trim '' bbbbbbbbbbbb'' = ''bbbbbbbbbbbb''" "trim ''aaaa'' = ''aaaa''"
    by (simp_all add: trim_def is_space_def)
  have c: "map chunk_text (splitText ''aaaa. bbbbbbbbbbbb'' 5 2) = [''aaaa.'', ''aa. bbbbbbbbbbbb.'']"
    unfolding splitText_def s by (simp add: t Let_def)
  show ?thesis unfolding c s t by simp
qed

section \<open>Properties of the request store\<close>

lemma run_timers_store:
  "requestStore (run_timers s now ts) requestId = Some r \<Longrightarrow> requestStore s requestId = Some r"
  by (induction s now ts rule: run_timers.induct) (auto simp: Let_def split: if_splits)

lemma run_timers_suspended:
  "suspended_calls (run_timers s now ts) = suspended_calls s"
  by (induction s now ts rule: run_timers.induct) (auto simp: Let_def)

lemma store_consistent_initial: "store_consistent initial_server"
  by (simp add: store_consistent_def initial_server_def)

lemma store_consistent_clock: "store_consistent s \<Longrightarrow> store_consistent (advance_clock s now)"
  unfolding store_consistent_def advance_clock_def
  by (metis run_timers_store run_timers_suspended)

lemma store_consistent_catch:
  assumes "store_consistent s"
    and "\<And>r. requestStore s requestId = Some r \<Longrightarrow> status r = ''processing''"
  shows "store_consistent (processRAGRequest_catch s requestId err)"
proof (cases "requestStore s requestId")
  case None
  then show ?thesis
    using assms(1) by (simp add: store_consistent_def processRAGRequest_catch_def update_request_def)
next
  case (Some r)
  have "request_consistent r" "status r = ''processing''"
    using assms Some by (auto simp: store_consistent_def)
  then have "request_consistent
      (r\<lparr>status := ''error'', error := Some (message_of err), message := Some ''Processing failed''\<rparr>)"
    by (simp add: request_consistent_def)
  then show ?thesis
    using assms(1) Some
    by (simp add: store_consistent_def processRAGRequest_catch_def update_request_def)
qed

lemma store_consistent_context:
  assumes "store_consistent s"
  shows "store_consistent (processRAGRequest_context s requestId outcome)"
proof (cases "suspended_calls s requestId")
  case None
  then show ?thesis using assms by (simp add: processRAGRequest_context_def)
next
  case (Some call)
  have proc: "\<And>r. requestStore s requestId = Some r \<Longrightarrow> status r = ''processing''"
    using assms Some by (simp add: store_consistent_def)
  show ?thesis
  proof (cases outcome)
    case (Inl err)
    then show ?thesis
      using Some assms store_consistent_catch [OF assms proc]
      by (simp add: processRAGRequest_context_def)
  next
    case (Inr processedData)
    show ?thesis
    proof (cases "requestStore s requestId")
      case None
      then show ?thesis
        using assms Some Inr
        by (simp add: processRAGRequest_context_def update_request_def store_consistent_def)
    next
      case r: (Some r)
      have "request_consistent r" "status r = ''processing''"
        using assms r proc by (auto simp: store_consistent_def)
      then have "request_consistent
          (r\<lparr>progress := Some 30, message := Some ''Generating embeddings...''\<rparr>)"
        by (simp add: request_consistent_def)
      then show ?thesis
        using assms Some Inr r \<open>status r = ''processing''\<close>
        by (simp add: processRAGRequest_context_def update_request_def store_consistent_def)
    qed
  qed
qed

lemma store_consistent_response:
  assumes "store_consistent s"
  shows "store_consistent (processRAGRequest_response s requestId outcome now)"
proof (cases "suspended_calls s requestId")
  case None
  then show ?thesis using assms by (simp add: processRAGRequest_response_def)
next
  case (Some call)
  have proc: "\<And>r. requestStore s requestId = Some r \<Longrightarrow> status r = ''processing''"
    using assms Some by (simp add: store_consistent_def)
  show ?thesis
  proof (cases outcome)
    case (Inl err)
    then show ?thesis
      using Some assms store_consistent_catch [OF assms proc]
      by (simp add: processRAGRequest_response_def)
  next
    case (Inr res)
    show ?thesis
    proof (cases "requestStore s requestId")
      case None
      then show ?thesis
        using assms Some Inr
        by (simp add: processRAGRequest_response_def update_request_def store_consistent_def)
    next
      case r: (Some r)
      have "request_consistent r" "status r = ''processing''"
        using assms r proc by (auto simp: store_consistent_def)
      then have "request_consistent
          (r\<lparr>progress := Some 100, status := ''completed'', message := Some ''Processing complete'',
             result := Some (res\<lparr>processingTime := now - startTime call\<rparr>)\<rparr>)"
        by (simp add: request_consistent_def)
      then show ?thesis
        using assms Some Inr r
        by (simp add: processRAGRequest_response_def update_request_def store_consistent_def)
    qed
  qed
qed

lemma store_consistent_ask:
  assumes "store_consistent s"
  shows "store_consistent (fst (post_ask s req_body requestId now))"
proof (cases "falsy (req_body ''question'') \<or> falsy (req_body ''context'')")
  case True
  then show ?thesis using assms by (simp add: post_ask_def Let_def)
next
  case False
  then show ?thesis
    using assms
    by (simp add: post_ask_def Let_def processRAGRequest_start_def update_request_def
        store_consistent_def request_consistent_def)
qed

lemma reachable_store_consistent: "reachable s \<Longrightarrow> store_consistent s"
proof (induction rule: reachable.induct)
  case start
  show ?case by (rule store_consistent_initial)
next
  case (ask s req_body requestId now)
  then show ?case by (simp add: store_consistent_ask)
next
  case (context_settled s requestId outcome)
  then show ?case by (simp add: store_consistent_context)
next
  case (response_settled s requestId outcome' now)
  then show ?case by (simp add: store_consistent_response)
next
  case (clock s now)
  then show ?case by (simp add: store_consistent_clock)
qed

lemma reachable_request_status:
  assumes "reachable s" and "requestStore s requestId = Some r"
  shows "(status r = ''completed'' \<longleftrightarrow> result r \<noteq> None \<and> error r = None) \<and>
         (status r = ''error'' \<longleftrightarrow> error r \<noteq> None \<and> result r = None) \<and>
         \<not> (result r \<noteq> None \<and> error r \<noteq> None) \<and>
         status r \<noteq> ''failed''"
proof -
  have "request_consistent r"
    using reachable_store_consistent [OF assms(1)] assms(2) by (simp add: store_consistent_def)
  then show ?thesis
    unfolding request_consistent_def by auto
qed

lemma catch_sets_no_timer: "timers (processRAGRequest_catch s requestId err) = timers s"
  by (simp add: processRAGRequest_catch_def update_request_def split: option.splits)

lemma catch_keeps_request:
  "requestStore s requestId \<noteq> None \<Longrightarrow> requestStore (processRAGRequest_catch s requestId err) requestId \<noteq> None"
  by (auto simp: processRAGRequest_catch_def update_request_def split: option.splits)

lemma lookups_of_failed_request:
  assumes "requestStore s requestId = Some r" and "service r = svc" and "status r = ''error''"
  shows "get_result s svc requestId =
           \<lparr>code = 202,
            body = [(''success'', JBool False), (''error'', JStr ''Request not completed yet''),
                    (''status'', JStr ''error'')]\<rparr>"
    and "map fst (body (get_status s svc requestId)) = [''success'', ''status'', ''progress'', ''message'']"
  using assms by (simp_all add: get_result_def get_status_def)

section \<open>Properties of the endpoints\<close>

lemma post_ask_falsy:
  "falsy (req_body ''question'') \<or> falsy (req_body ''context'') \<Longrightarrow>
   post_ask s req_body requestId now = (s, bad_request)"
  by (simp add: post_ask_def Let_def)

lemma get_status_unknown: "requestStore s requestId = None \<Longrightarrow> get_status s svc requestId = not_found"
  by (simp add: get_status_def)

lemma get_result_unknown: "requestStore s requestId = None \<Longrightarrow> get_result s svc requestId = not_found"
  by (simp add: get_result_def)

text \<open>
  C8. A \<open>POST /thehopper/ask\<close> whose body lacks \<open>question\<close> or \<open>context\<close> is answered
  with 400 and leaves the server as it was: no request is stored, and the status lookup
  of any identifier that was unknown before is still answered with 404.
\<close>

theorem post_ask_missing_field:
  assumes "req_body ''question'' = JUndefined \<or> req_body ''context'' = JUndefined"
  shows "post_ask s req_body requestId now = (s, bad_request) \<and> code bad_request = 400 \<and>
         (\<forall>svc rid. requestStore s rid = None \<longrightarrow>
            get_status (fst (post_ask s req_body requestId now)) svc rid = not_found) \<and>
         code not_found = 404"
proof -
  have "falsy (req_body ''question'') \<or> falsy (req_body ''context'')"
    using assms by auto
  then have "post_ask s req_body requestId now = (s, bad_request)"
    by (rule post_ask_falsy)
  then show ?thesis
    by (simp add: get_status_unknown bad_request_def not_found_def)
qed

theorem post_ask_missing_field_witness:
  "((\<lambda>k. if k = ''question'' then JStr ''What is machine learning?'' else JUndefined) ''question'' = JUndefined \<or>
    (\<lambda>k. if k = ''question'' then JStr ''What is machine learning?'' else JUndefined) ''context'' = JUndefined) \<and>
   post_ask initial_server (\<lambda>k. if k = ''question'' then JStr ''What is machine learning?'' else JUndefined)
     ''id-1'' 1000 = (initial_server, bad_request) \<and>
   requestStore initial_server ''id-1'' = None \<and>
   get_status (fst (post_ask initial_server
       (\<lambda>k. if k = ''question'' then JStr ''What is machine learning?'' else JUndefined) ''id-1'' 1000))
     ''thehopper'' ''id-1'' = not_found"
proof -
  let ?b = "\<lambda>k. if k = ''question'' then JStr ''What is machine learning?'' else JUndefined"
  have h: "?b ''question'' = JUndefined \<or> ?b ''context'' = JUndefined" by simp
  have n: "requestStore initial_server ''id-1'' = None" by (simp add: initial_server_def)
  show ?thesis
    using h n post_ask_missing_field [OF h, of initial_server "''id-1''" 1000] by blast
qed

text \<open>
  C10. For a request id that is in the store, a status or result lookup under a service
  name other than the one recorded with the request is answered with 400,
  \<open>success: false\<close> and \<open>'Service mismatch'\<close>: neither 404 nor anything of the request.
\<close>

theorem service_mismatch_is_400:
  assumes "requestStore s requestId = Some r" and "service r \<noteq> svc"
  shows "get_status s svc requestId = service_mismatch \<and>
         get_result s svc requestId = service_mismatch \<and>
         service_mismatch =
           \<lparr>code = 400, body = [(''success'', JBool False), (''error'', JStr ''Service mismatch'')]\<rparr>"
  using assms by (simp add: get_status_def get_result_def service_mismatch_def)

lemma submitted_request:
  "requestStore submitted_server ''id-1'' =
     Some \<lparr>status = ''processing'', question = JStr ''What is machine learning?'',
           context_of = JStr ''Machine learning is a subset of artificial intelligence.'',
           weakConcepts = JArr [], createdAt = 1000, service = ''thehopper'',
           progress = Some 10, message = Some ''Processing context...'',
           result = None, error = None\<rparr>"
  by (simp add: submitted_server_def post_ask_def example_body_def initial_server_def
      processRAGRequest_start_def update_request_def Let_def)

theorem service_mismatch_is_400_witness:
  "requestStore submitted_server ''id-1'' =
     Some \<lparr>status = ''processing'', question = JStr ''What is machine learning?'',
           context_of = JStr ''Machine learning is a subset of artificial intelligence.'',
           weakConcepts = JArr [], createdAt = 1000, service = ''thehopper'',
           progress = Some 10, message = Some ''Processing context...'',
           result = None, error = None\<rparr> \<and>
   ''thehopper'' \<noteq> ''podcast'' \<and>
   get_status submitted_server ''podcast'' ''id-1'' = service_mismatch \<and>
   get_result submitted_server ''podcast'' ''id-1'' = service_mismatch"
proof -
  let ?r = "\<lparr>status = ''processing'', question = JStr ''What is machine learning?'',
           context_of = JStr ''Machine learning is a subset of artificial intelligence.'',
           weakConcepts = JArr [], createdAt = 1000, service = ''thehopper'',
           progress = Some 10, message = Some ''Processing context...'',
           result = None, error = None\<rparr>"
  have h: "requestStore submitted_server ''id-1'' = Some ?r" by (rule submitted_request)
  have d: "service ?r \<noteq> ''podcast''" by simp
  show ?thesis
    using h service_mismatch_is_400 [OF h d] by simp
qed

lemma submitted_server_eq:
  "submitted_server =
     \<lparr>requestStore = [''id-1'' \<mapsto>
        \<lparr>status = ''processing'', question = JStr ''What is machine learning?'',
           context_of = JStr ''Machine learning is a subset of artificial intelligence.'',
           weakConcepts = JArr [], createdAt = 1000, service = ''thehopper'',
           progress = Some 10, message = Some ''Processing context...'',
           result = None, error = None\<rparr>],
      suspended_calls = [''id-1'' \<mapsto> \<lparr>await_at = AwaitProcessContext, startTime = 1000\<rparr>],
      timers = []\<rparr>"
  by (simp add: submitted_server_def post_ask_def example_body_def initial_server_def
      processRAGRequest_start_def update_request_def Let_def)

lemma generating_server_eq:
  "generating_server =
     \<lparr>requestStore = [''id-1'' \<mapsto>
        \<lparr>status = ''processing'', question = JStr ''What is machine learning?'',
           context_of = JStr ''Machine learning is a subset of artificial intelligence.'',
           weakConcepts = JArr [], createdAt = 1000, service = ''thehopper'',
           progress = Some 30, message = Some ''Generating embeddings...'',
           result = None, error = None\<rparr>],
      suspended_calls = [''id-1'' \<mapsto> \<lparr>await_at = AwaitGenerateResponse, startTime = 1000\<rparr>],
      timers = []\<rparr>"
  by (simp add: generating_server_def submitted_server_eq processRAGRequest_context_def
      update_request_def)

lemma context_failed_server_eq:
  "context_failed_server =
     \<lparr>requestStore = [''id-1'' \<mapsto>
        \<lparr>status = ''error'', question = JStr ''What is machine learning?'',
           context_of = JStr ''Machine learning is a subset of artificial intelligence.'',
           weakConcepts = JArr [], createdAt = 1000, service = ''thehopper'',
           progress = Some 10, message = Some ''Processing failed'',
           result = None, error = Some ''Failed to process context''\<rparr>],
      suspended_calls = Map.empty,
      timers = []\<rparr>"
  by (simp add: context_failed_server_def submitted_server_eq processRAGRequest_context_def
      processRAGRequest_catch_def update_request_def)

lemma generation_failed_server_eq:
  "generation_failed_server =
     \<lparr>requestStore = [''id-1'' \<mapsto>
        \<lparr>status = ''error'', question = JStr ''What is machine learning?'',
           context_of = JStr ''Machine learning is a subset of artificial intelligence.'',
           weakConcepts = JArr [], createdAt = 1000, service = ''thehopper'',
           progress = Some 30, message = Some ''Processing failed'',
           result = None, error = Some ''RAG pipeline failed: Groq API error: Connection error.''\<rparr>],
      suspended_calls = Map.empty,
      timers = []\<rparr>"
  by (simp add: generation_failed_server_def generating_server_eq processRAGRequest_response_def
      processRAGRequest_catch_def update_request_def)

lemma completed_server_eq:
  "completed_server =
     \<lparr>requestStore = [''id-1'' \<mapsto>
        \<lparr>status = ''completed'', question = JStr ''What is machine learning?'',
           context_of = JStr ''Machine learning is a subset of artificial intelligence.'',
           weakConcepts = JArr [], createdAt = 1000, service = ''thehopper'',
           progress = Some 100, message = Some ''Processing complete'',
           result = Some \<lparr>answer = ''It is a way to learn from data.'', citations = [], themes = [],
             processingTime = 1500\<rparr>, error = None\<rparr>],
      suspended_calls = Map.empty,
      timers = [(3602500, ''id-1'')]\<rparr>"
  by (simp add: completed_server_def generating_server_eq processRAGRequest_response_def
      update_request_def example_result_def one_hour_def)

text \<open>
  C1. The claim is that a request whose processing throws gets the status \<open>failed\<close>, its
  \<open>error\<close> set and no result. The code sets the error and keeps no result, but the status
  it assigns is \<open>'error'\<close>, a value the polling client, which looks for \<open>'failed'\<close>, does not
  know. For the request whose \<open>processContext\<close> throws:
\<close>

theorem failed_request_status:
  "map_option status (requestStore context_failed_server ''id-1'') = Some ''error'' \<and>
   map_option error (requestStore context_failed_server ''id-1'') = Some (Some ''Failed to process context'') \<and>
   map_option result (requestStore context_failed_server ''id-1'') = Some None \<and>
   ''error'' \<noteq> ''failed''"
  by (simp add: context_failed_server_eq)

text \<open>
  C2. The claim is that a request is deleted one hour after completion or failure. The
  timer is set on completion only. The request that failed at time 2500 has no timer and
  is still stored a thousand hours later; the completed one is deleted after one hour.
\<close>

theorem failed_request_never_evicted:
  "timers generation_failed_server = [] \<and>
   requestStore (advance_clock generation_failed_server (2500 + 1000 * one_hour)) ''id-1'' \<noteq> None \<and>
   timers completed_server = [(2500 + one_hour, ''id-1'')] \<and>
   requestStore (advance_clock completed_server (2500 + one_hour)) ''id-1'' = None"
  by (simp add: generation_failed_server_eq completed_server_eq advance_clock_def one_hour_def)

text \<open>
  C3. The claim is that the error message recorded for a failed request comes back from
  a status or result lookup. The message is stored, and neither response carries it:
  the status response has \<open>'Processing failed'\<close> as its message, the result response
  \<open>'Request not completed yet'\<close> as its error.
\<close>

theorem failed_request_lookups:
  "map_option error (requestStore generation_failed_server ''id-1'') =
     Some (Some ''RAG pipeline failed: Groq API error: Connection error.'') \<and>
   get_status generation_failed_server ''thehopper'' ''id-1'' =
     \<lparr>code = 200,
      body = [(''success'', JBool True), (''status'', JStr ''error''), (''progress'', JNum 30),
              (''message'', JStr ''Processing failed'')]\<rparr> \<and>
   get_result generation_failed_server ''thehopper'' ''id-1'' =
     \<lparr>code = 202,
      body = [(''success'', JBool False), (''error'', JStr ''Request not completed yet''),
              (''status'', JStr ''error'')]\<rparr>"
  by (simp add: generation_failed_server_eq get_status_def get_result_def)

end
